theory Spec2Isabelle
  imports Complex_Main
begin

section \<open>Arithmetic of the C++ source\<close>

text \<open>
  The miniapp computes with \<^verbatim>\<open>double\<close> and \<^verbatim>\<open>int\<close>.  A \<^verbatim>\<open>double\<close> is modelled by a
  real number.  The step quantizer is modelled twice: with the rounding operations of the
  platform as parameters (\<open>SnapTimeStep_fp\<close>), and for exact arithmetic (\<open>SnapTimeStep\<close>),
  the instance of the former for a platform that does not round.  Everything else is
  modelled in exact arithmetic.  Infinities and NaN are outside the model, and an
  operation whose IEEE result would be one of them is a fault.  An \<^verbatim>\<open>int\<close> is a 32-bit
  two's complement integer; the operations that C++ leaves undefined (a conversion from
  \<^verbatim>\<open>double\<close> whose truncated value does not fit, a signed product that overflows, a
  division by zero) are faults of the model, never silent values.
\<close>

datatype fault =
    CastOutOfRange
  | SignedOverflow
  | DivideByZero
  | IndexOutOfRange
  | UninitializedRead
  | AssertionFailed

definition bind_fault :: "fault + 'a \<Rightarrow> ('a \<Rightarrow> fault + 'b) \<Rightarrow> fault + 'b" where
  "bind_fault m f = (case m of Inl e \<Rightarrow> Inl e | Inr v \<Rightarrow> f v)"

definition INT_MAX :: int where
  "INT_MAX = 2147483647"

definition INT_MIN :: int where
  "INT_MIN = - 2147483648"

definition in_int :: "int \<Rightarrow> bool" where
  "in_int k \<longleftrightarrow> INT_MIN \<le> k \<and> k \<le> INT_MAX"

text \<open>The conversion \<^verbatim>\<open>(int)x\<close>: truncation towards zero, defined only when the
  truncated value is an \<^verbatim>\<open>int\<close>.\<close>

definition int_of_double :: "real \<Rightarrow> fault + int" where
  "int_of_double x =
     (let k = (if 0 \<le> x then \<lfloor>x\<rfloor> else \<lceil>x\<rceil>)
      in if in_int k then Inr k else Inl CastOutOfRange)"

text \<open>The product of two \<^verbatim>\<open>int\<close>s.\<close>

definition int_mul :: "int \<Rightarrow> int \<Rightarrow> fault + int" where
  "int_mul a b = (if in_int (a * b) then Inr (a * b) else Inl SignedOverflow)"

text \<open>\<^verbatim>\<open>pow\<close> of the C library, called by the source with the bases 5 and 10 only, in
  exact arithmetic.\<close>

definition pow :: "real \<Rightarrow> real \<Rightarrow> real" where
  "pow b e = b powr e"

text \<open>\<^verbatim>\<open>(int)ceil(log10(x))\<close> with the exact logarithm.  For \<open>x \<le> 0\<close> the library's \<^verbatim>\<open>log10\<close> returns minus infinity
  or NaN, \<^verbatim>\<open>ceil\<close> keeps it, and its conversion to \<^verbatim>\<open>int\<close> is undefined.\<close>

definition cast_ceil_log10 :: "real \<Rightarrow> fault + int" where
  "cast_ceil_log10 x =
     (if x \<le> 0 then Inl CastOutOfRange
      else int_of_double (real_of_int \<lceil>log 10 x\<rceil>))"

section \<open>The step quantizer \<^verbatim>\<open>SnapTimeStep\<close> in exact arithmetic\<close>

text \<open>One pass through the body of \<^verbatim>\<open>for (int i=1; i<=5; i++)\<close>: the value of
  \<^verbatim>\<open>nstepsi\<close>.\<close>

definition snap_candidate :: "real \<Rightarrow> int \<Rightarrow> fault + int" where
  "snap_candidate dsteps i =
     bind_fault (cast_ceil_log10 (dsteps / pow 5 (real_of_int i))) (\<lambda>a.
     bind_fault (int_of_double (pow 5 (real_of_int i))) (\<lambda>p5.
     bind_fault (int_of_double (pow 10 (real_of_int a))) (\<lambda>p10.
     int_mul p5 (max 1 p10))))"

text \<open>The loop, from the value of \<open>i\<close> on: \<^verbatim>\<open>nsteps = min(nsteps,nstepsi)\<close>.\<close>

function snap_loop :: "real \<Rightarrow> int \<Rightarrow> int \<Rightarrow> fault + int" where
  "snap_loop dsteps i nsteps =
     (if i \<le> 5 then
        bind_fault (snap_candidate dsteps i) (\<lambda>nstepsi.
        snap_loop dsteps (i + 1) (min nsteps nstepsi))
      else Inr nsteps)"
  by pat_completeness auto
termination
  by (relation "measure (\<lambda>(dsteps, i, nsteps). nat (6 - i))") auto

text \<open>The step count that \<^verbatim>\<open>SnapTimeStep\<close> returns: the statements before
  \<^verbatim>\<open>dt = tmax / nsteps\<close>.\<close>

definition SnapTimeStep_nsteps :: "real \<Rightarrow> real \<Rightarrow> fault + int" where
  "SnapTimeStep_nsteps tmax dtmax =
     (if dtmax = 0 then Inl DivideByZero
      else
        let dsteps = tmax / dtmax in
        bind_fault (cast_ceil_log10 dsteps) (\<lambda>a0.
        bind_fault (int_of_double (pow 10 (real_of_int a0))) (\<lambda>nsteps.
        snap_loop dsteps 1 nsteps)))"

text \<open>\<^verbatim>\<open>SnapTimeStep\<close>: the returned step count, paired with the step size written
  through \<^verbatim>\<open>dt\<close>.\<close>

definition SnapTimeStep :: "real \<Rightarrow> real \<Rightarrow> fault + (int \<times> real)" where
  "SnapTimeStep tmax dtmax =
     bind_fault (SnapTimeStep_nsteps tmax dtmax) (\<lambda>nsteps.
       if nsteps = 0 then Inl DivideByZero
       else Inr (nsteps, tmax / real_of_int nsteps))"

text \<open>
  The wording of the specification, to compare \<^verbatim>\<open>SnapTimeStep\<close> with: the power-of-ten
  candidate \<open>10^ceil(log10(rawSteps))\<close>, the family
  \<open>5^i \<sqdot> max(1, 10^ceil(log10(rawSteps / 5^i)))\<close> for \<open>i\<close> from 1 to 5, and the smallest
  candidate that is at least \<open>rawSteps\<close>.
\<close>

definition spec_power_of_ten :: "real \<Rightarrow> real" where
  "spec_power_of_ten r = 10 powr real_of_int \<lceil>log 10 r\<rceil>"

definition spec_family :: "nat \<Rightarrow> real \<Rightarrow> real" where
  "spec_family i r = 5 ^ i * max 1 (10 powr real_of_int \<lceil>log 10 (r / 5 ^ i)\<rceil>)"

definition spec_candidates :: "real \<Rightarrow> real set" where
  "spec_candidates r = insert (spec_power_of_ten r) ((\<lambda>i. spec_family i r) ` {1..5})"

definition spec_quantize :: "real \<Rightarrow> real" where
  "spec_quantize r = Min {c \<in> spec_candidates r. r \<le> c}"

section \<open>The step quantizer on a floating-point platform\<close>

text \<open>
  \<^verbatim>\<open>SnapTimeStep\<close> once more, with every operation on \<^verbatim>\<open>double\<close> that rounds taken from
  the platform: the division of two \<^verbatim>\<open>double\<close>s and the functions \<^verbatim>\<open>log10\<close> and \<^verbatim>\<open>pow\<close> of
  the C library, none of which is among the sources.  \<^verbatim>\<open>ceil\<close>, the conversions between
  \<^verbatim>\<open>int\<close> and \<^verbatim>\<open>double\<close>, \<^verbatim>\<open>min\<close> and \<^verbatim>\<open>max\<close> do not round.  The definitions above are the
  instance for a platform that does not round at all (lemma \<open>SnapTimeStep_fp_exact\<close>).
\<close>

record platform =
  fdiv :: "real \<Rightarrow> real \<Rightarrow> real"
  flog10 :: "real \<Rightarrow> real"
  fpow :: "real \<Rightarrow> real \<Rightarrow> real"

definition cast_ceil_log10_fp :: "platform \<Rightarrow> real \<Rightarrow> fault + int" where
  "cast_ceil_log10_fp F x =
     (if x \<le> 0 then Inl CastOutOfRange
      else int_of_double (real_of_int \<lceil>flog10 F x\<rceil>))"

definition snap_candidate_fp :: "platform \<Rightarrow> real \<Rightarrow> int \<Rightarrow> fault + int" where
  "snap_candidate_fp F dsteps i =
     bind_fault (cast_ceil_log10_fp F (fdiv F dsteps (fpow F 5 (real_of_int i)))) (\<lambda>a.
     bind_fault (int_of_double (fpow F 5 (real_of_int i))) (\<lambda>p5.
     bind_fault (int_of_double (fpow F 10 (real_of_int a))) (\<lambda>p10.
     int_mul p5 (max 1 p10))))"

function snap_loop_fp :: "platform \<Rightarrow> real \<Rightarrow> int \<Rightarrow> int \<Rightarrow> fault + int" where
  "snap_loop_fp F dsteps i nsteps =
     (if i \<le> 5 then
        bind_fault (snap_candidate_fp F dsteps i) (\<lambda>nstepsi.
        snap_loop_fp F dsteps (i + 1) (min nsteps nstepsi))
      else Inr nsteps)"
  by pat_completeness auto
termination
  by (relation "measure (\<lambda>(F, dsteps, i, nsteps). nat (6 - i))") auto

definition SnapTimeStep_nsteps_fp :: "platform \<Rightarrow> real \<Rightarrow> real \<Rightarrow> fault + int" where
  "SnapTimeStep_nsteps_fp F tmax dtmax =
     (if dtmax = 0 then Inl DivideByZero
      else
        let dsteps = fdiv F tmax dtmax in
        bind_fault (cast_ceil_log10_fp F dsteps) (\<lambda>a0.
        bind_fault (int_of_double (fpow F 10 (real_of_int a0))) (\<lambda>nsteps.
        snap_loop_fp F dsteps 1 nsteps)))"

definition SnapTimeStep_fp :: "platform \<Rightarrow> real \<Rightarrow> real \<Rightarrow> fault + (int \<times> real)" where
  "SnapTimeStep_fp F tmax dtmax =
     bind_fault (SnapTimeStep_nsteps_fp F tmax dtmax) (\<lambda>nsteps.
       if nsteps = 0 then Inl DivideByZero
       else Inr (nsteps, fdiv F tmax (real_of_int nsteps)))"

text \<open>The platform that computes exactly.\<close>

definition exact_platform :: platform where
  "exact_platform = \<lparr>fdiv = (\<lambda>x y. x / y), flog10 = log 10, fpow = pow\<rparr>"



text \<open>
  A platform to evaluate on: IEEE 754 binary64 with round to nearest, ties to even, and a
  C library whose \<^verbatim>\<open>log10\<close> and \<^verbatim>\<open>pow\<close> are correctly rounded.  \<open>rne\<close> rounds a real to the
  nearest integer, \<open>rd\<close> rounds a real to the nearest number with 53 significant bits;
  overflow to infinity and subnormal numbers are left out, so \<open>rd\<close> is the rounding of
  results whose magnitude lies between \<open>2^-1022\<close> and \<open>2^1024\<close>.
\<close>

definition rne :: "real \<Rightarrow> int" where
  "rne z =
     (let f = \<lfloor>z\<rfloor>; d = z - real_of_int f
      in if d < 1 / 2 then f else if d > 1 / 2 then f + 1
         else if even f then f else f + 1)"



section \<open>The driving loop of \<^verbatim>\<open>main\<close>\<close>

text \<open>
  What \<^verbatim>\<open>main\<close> does from the call of \<^verbatim>\<open>SnapTimeStep\<close> to the end of the time loop, as
  far as the loop's control goes: the simulated time \<^verbatim>\<open>t\<close>, the lines written to
  \<^verbatim>\<open>cout\<close> that depend on the step count, and a count of the calls of
  \<^verbatim>\<open>siaSolver.Step\<close>.  The rest of the loop's body (energy report, synchronisation of
  the grid functions, VisIt and GLVis output) reads the fields and writes to the sinks; it
  assigns none of \<^verbatim>\<open>it\<close>, \<^verbatim>\<open>nsteps\<close>, \<^verbatim>\<open>dt\<close> and \<^verbatim>\<open>t\<close>.
\<close>

datatype message =
    MaximumTimeStep real
  | TooLarge
  | NumberOfTimeSteps int
  | TimeStepSize real

record evolution =
  time :: real
  step_calls :: nat
  cout :: "message list"

text \<open>Modelled from the spec: \<^verbatim>\<open>SIAVSolver::Step\<close> is not among the sources.  The
  specification has \<^verbatim>\<open>step(B, E, t, dt)\<close> advance the field pair by exactly \<open>dt\<close>,
  mutating \<open>t\<close> in place; each call is counted.\<close>

definition Step :: "real \<Rightarrow> evolution \<Rightarrow> evolution" where
  "Step dt s = s\<lparr>time := time s + dt, step_calls := Suc (step_calls s)\<rparr>"

text \<open>\<^verbatim>\<open>for (int it = 1; it <= nsteps; it++)\<close>, from the value of \<open>it\<close> on.  Incrementing
  \<^verbatim>\<open>it\<close> beyond the largest \<^verbatim>\<open>int\<close> is undefined.\<close>

function time_loop :: "real \<Rightarrow> int \<Rightarrow> int \<Rightarrow> evolution \<Rightarrow> fault + evolution" where
  "time_loop dt nsteps it s =
     (if it \<le> nsteps then
        (if it = INT_MAX then Inl SignedOverflow
         else time_loop dt nsteps (it + 1) (Step dt s))
      else Inr s)"
  by pat_completeness auto
termination
  by (relation "measure (\<lambda>(dt, nsteps, it, s). nat (nsteps + 1 - it))") auto

text \<open>\<^verbatim>\<open>main\<close> with the time interval \<open>tmax\<close> in nanoseconds, the stability bound
  \<open>dtmax\<close> and the cap \<open>max_its\<close>.\<close>

definition time_evolution :: "real \<Rightarrow> real \<Rightarrow> int \<Rightarrow> fault + evolution" where
  "time_evolution tmax dtmax max_its =
     bind_fault (SnapTimeStep (tmax * (1 / 10 ^ 9)) dtmax) (\<lambda>(nsteps0, dt).
       let capped = (nsteps0 > max_its);
           nsteps = (if capped then max_its else nsteps0)
       in time_loop dt nsteps 1
            \<lparr>time = 0, step_calls = 0,
             cout = [MaximumTimeStep dtmax] @ (if capped then [TooLarge] else [])
                   @ [NumberOfTimeSteps nsteps, TimeStepSize dt]\<rparr>)"

section \<open>Operators, matrices and their inverses\<close>

text \<open>Modelled from the spec: the base classes \<^verbatim>\<open>Operator\<close> and \<^verbatim>\<open>Solver\<close>
  (\<^verbatim>\<open>operator.hpp\<close>) are not among the sources.  The specification gives an operator a
  fixed output dimension, its height, and a fixed input dimension, its width; the
  constructors that \<^verbatim>\<open>matrix.hpp\<close> calls store the two.\<close>

record Operator =
  height :: int
  width :: int

definition Operator_hw :: "int \<Rightarrow> int \<Rightarrow> Operator" where
  "Operator_hw h w = \<lparr>height = h, width = w\<rparr>"

definition Solver :: "int \<Rightarrow> int \<Rightarrow> Operator" where
  "Solver h w = Operator_hw h w"

text \<open>\<^verbatim>\<open>class Matrix : public Operator\<close>; \<^verbatim>\<open>Elem\<close> is the pure virtual element access.\<close>

record Matrix = Operator +
  Elem :: "int \<Rightarrow> int \<Rightarrow> real"

text \<open>\<^verbatim>\<open>explicit Matrix(int h, int w) : Operator(h, w)\<close>, with the elements of the
  concrete class.\<close>

definition Matrix_hw :: "int \<Rightarrow> int \<Rightarrow> (int \<Rightarrow> int \<Rightarrow> real) \<Rightarrow> Matrix" where
  "Matrix_hw h w e = Operator.extend (Operator_hw h w) \<lparr>Elem = e\<rparr>"

text \<open>\<^verbatim>\<open>MatrixInverse(const Matrix &mat) : Solver(mat.height, mat.width) { }\<close>\<close>

definition MatrixInverse :: "Matrix \<Rightarrow> Operator" where
  "MatrixInverse mat = Solver (height mat) (width mat)"

text \<open>Modelled from the spec: \<^verbatim>\<open>Mult\<close> is pure virtual in \<^verbatim>\<open>matrix.hpp\<close> and no concrete
  operator is among the sources.  The specification's \<^verbatim>\<open>apply(x) \<rightarrow> y\<close> computes
  \<open>y = A\<sqdot>x\<close>, requires \<open>len(x) = width\<close> and \<open>len(y) = height\<close> and fails with
  \<^verbatim>\<open>DimensionMismatch\<close> otherwise, for the dense and the sparse variant alike.\<close>

datatype op_error =
    DimensionMismatch
  | OutOfRange
  | StructuralError
  | InvalidArgument

datatype storage =
    Dense "real list list"
  | Sparse "(nat \<times> real) list list"

record spec_operator =
  op_height :: nat
  op_width :: nat
  op_storage :: storage

fun row_times :: "storage \<Rightarrow> nat \<Rightarrow> real list \<Rightarrow> real" where
  "row_times (Dense rows) i x =
     (if i < length rows then (\<Sum>(a, b)\<leftarrow>zip (rows ! i) x. a * b) else 0)"
| "row_times (Sparse rows) i x =
     (if i < length rows
      then (\<Sum>(j, a)\<leftarrow>rows ! i. if j < length x then a * x ! j else 0) else 0)"

definition Mult :: "spec_operator \<Rightarrow> real list \<Rightarrow> real list \<Rightarrow> op_error + real list" where
  "Mult A x y =
     (if length x = op_width A \<and> length y = op_height A
      then Inr (map (\<lambda>i. row_times (op_storage A) i x) [0..<op_height A])
      else Inl DimensionMismatch)"

section \<open>The source terms of the miniapp\<close>

text \<open>Modelled from the spec: the class \<^verbatim>\<open>Vector\<close> (\<^verbatim>\<open>linalg/vector.hpp\<close>) is not among the
  sources and the specification treats it as a plain array of reals.  A \<^verbatim>\<open>Vector\<close> is a
  list of reals whose length is its \<^verbatim>\<open>Size()\<close>, an \<^verbatim>\<open>int\<close>; its operations have their usual
  meaning: \<^verbatim>\<open>v[i]\<close> reads an entry and is undefined outside \<open>0 \<le> i < Size()\<close>,
  \<^verbatim>\<open>Norml2\<close> is the Euclidean norm, \<^verbatim>\<open>u*v\<close> the inner product, \<^verbatim>\<open>v.Add(c, w)\<close> adds
  \<open>c\<sqdot>w\<close> to \<open>v\<close>, \<^verbatim>\<open>v *= c\<close> and \<^verbatim>\<open>v /= c\<close> scale, \<^verbatim>\<open>v += w\<close> adds entry by entry.
  An index that would overflow \<^verbatim>\<open>int\<close> lies outside every \<^verbatim>\<open>Vector\<close>, so the fault of the
  read stands for it.\<close>

definition vec_get :: "real list \<Rightarrow> nat \<Rightarrow> fault + real" where
  "vec_get v i = (if i < length v then Inr (v ! i) else Inl IndexOutOfRange)"

definition Norml2 :: "real list \<Rightarrow> real" where
  "Norml2 v = sqrt (\<Sum>a\<leftarrow>v. a * a)"

definition inner :: "real list \<Rightarrow> real list \<Rightarrow> real" where
  "inner u v = (\<Sum>(a, b)\<leftarrow>zip u v. a * b)"

definition Add :: "real list \<Rightarrow> real \<Rightarrow> real list \<Rightarrow> real list" where
  "Add v c w = map2 (\<lambda>a b. a + c * b) v w"

definition scale :: "real \<Rightarrow> real list \<Rightarrow> real list" where
  "scale c v = map (\<lambda>a. a * c) v"

definition add_assign :: "real list \<Rightarrow> real list \<Rightarrow> fault + real list" where
  "add_assign v w =
     (if length v = length w then Inr (map2 (+) v w) else Inl IndexOutOfRange)"

text \<open>A division of \<^verbatim>\<open>double\<close>s whose divisor may be zero.\<close>

definition ddiv :: "real \<Rightarrow> real \<Rightarrow> fault + real" where
  "ddiv a b = (if b = 0 then Inl DivideByZero else Inr (a / b))"

text \<open>The loop shared by \<^verbatim>\<open>voltaic_pile\<close> and \<^verbatim>\<open>current_ring\<close>, from the value of \<open>i\<close>
  on: \<^verbatim>\<open>xu[i] -= params[i]; a[i] = params[x.Size()+i] - params[i];\<close>\<close>

function axis_loop ::
  "real list \<Rightarrow> nat \<Rightarrow> nat \<Rightarrow> real list \<Rightarrow> real list \<Rightarrow> fault + (real list \<times> real list)" where
  "axis_loop params n i xu a =
     (if i < n then
        bind_fault (vec_get params i) (\<lambda>p0.
        bind_fault (vec_get params (n + i)) (\<lambda>p1.
        axis_loop params n (i + 1) (xu[i := xu ! i - p0]) (a[i := p1 - p0])))
      else Inr (xu, a))"
  by pat_completeness auto
termination
  by (relation "measure (\<lambda>(params, n, i, xu, a). n - i)") auto

text \<open>\<^verbatim>\<open>voltaic_pile(x, t, p)\<close> with the global \<^verbatim>\<open>vp_params_\<close> as its first argument; the
  result is the new value of \<open>p\<close>.  \<^verbatim>\<open>Vector a(x.Size())\<close> is allocated without values;
  the loop assigns each entry before any is read.\<close>

definition voltaic_pile :: "real list \<Rightarrow> real list \<Rightarrow> real \<Rightarrow> fault + real list" where
  "voltaic_pile vp_params x t =
     (let n = length x; p = replicate n 0 in
      bind_fault (axis_loop vp_params n 0 x (replicate n 0)) (\<lambda>(xu, a).
        let h = Norml2 a in
        if h = 0 then Inr p
        else
          bind_fault (vec_get vp_params (2 * n)) (\<lambda>r.
            let xa = inner xu a;
                xu = (if h > 0 then Add xu (- xa / (h * h)) a else xu);
                xp = Norml2 xu
            in
            bind_fault
              (if xa \<ge> 0 \<and> xa \<le> h * h \<and> xp \<le> r
               then bind_fault (vec_get vp_params (2 * n + 1)) (\<lambda>m. Inr (Add p (m / h) a))
               else Inr p) (\<lambda>p.
            bind_fault (vec_get vp_params (2 * n + 2)) (\<lambda>f.
            Inr (scale (sin (2 * pi * f * t)) p))))))"

text \<open>\<^verbatim>\<open>MFEM_ASSERT\<close> is a macro of the library that is not among the sources; whether it
  is compiled in is the parameter \<open>debug\<close>.\<close>

definition MFEM_ASSERT :: "bool \<Rightarrow> bool \<Rightarrow> fault + unit" where
  "MFEM_ASSERT debug c = (if debug \<and> \<not> c then Inl AssertionFailed else Inr ())"

text \<open>The unit vector \<^verbatim>\<open>ju\<close> of \<^verbatim>\<open>current_ring\<close>: \<^verbatim>\<open>Vector ju(x.Size())\<close> is allocated
  without values and the entries 0, 1 and 2 are assigned from entries 0, 1 and 2 of
  \<open>a\<close> and \<open>xu\<close>, then \<^verbatim>\<open>ju /= h\<close>.\<close>

definition ring_direction :: "real list \<Rightarrow> real list \<Rightarrow> real \<Rightarrow> fault + real list" where
  "ring_direction a xu h =
     (if length a < 3 then Inl IndexOutOfRange
      else if length a > 3 then Inl UninitializedRead
      else Inr (map (\<lambda>c. c / h)
        [a ! 1 * xu ! 2 - a ! 2 * xu ! 1,
         a ! 2 * xu ! 0 - a ! 0 * xu ! 2,
         a ! 0 * xu ! 1 - a ! 1 * xu ! 0]))"

text \<open>\<^verbatim>\<open>current_ring(x, t, j)\<close> with the global \<^verbatim>\<open>cr_params_\<close>; the result is the new value
  of \<open>j\<close>.\<close>

definition current_ring :: "bool \<Rightarrow> real list \<Rightarrow> real list \<Rightarrow> real \<Rightarrow> fault + real list" where
  "current_ring debug cr_params x t =
     bind_fault (MFEM_ASSERT debug (length x = 3)) (\<lambda>_.
      let n = length x; j = replicate n 0 in
      bind_fault (axis_loop cr_params n 0 x (replicate n 0)) (\<lambda>(xu, a).
        let h = Norml2 a in
        if h = 0 then Inr j
        else
          bind_fault (vec_get cr_params (2 * n + 0)) (\<lambda>ra0.
          bind_fault (vec_get cr_params (2 * n + 1)) (\<lambda>rb0.
            let ra = (if ra0 > rb0 then rb0 else ra0);
                rb = (if ra0 > rb0 then ra0 else rb0);
                xa = inner xu a;
                xu = (if h > 0 then Add xu (- xa / (h * h)) a else xu);
                xp = Norml2 xu
            in
            bind_fault
              (if xa \<ge> 0 \<and> xa \<le> h * h \<and> xp \<ge> ra \<and> xp \<le> rb
               then
                 bind_fault (ring_direction a xu h) (\<lambda>ju.
                 bind_fault (vec_get cr_params (2 * n + 2)) (\<lambda>c.
                 bind_fault (ddiv c (h * (rb - ra))) (\<lambda>q.
                 Inr (Add j q ju))))
               else Inr j) (\<lambda>j.
            bind_fault (vec_get cr_params (2 * n + 3)) (\<lambda>f.
            Inr (scale (sin (2 * pi * f * t)) j)))))))"

text \<open>\<^verbatim>\<open>current_src(x, t, j)\<close> with the two globals; \<open>j\<close> is the output vector as the caller
  passes it, the result its new value.  The product of the two sizes is a product of
  \<^verbatim>\<open>int\<close>s.\<close>

definition current_src ::
  "bool \<Rightarrow> real list \<Rightarrow> real list \<Rightarrow> real list \<Rightarrow> real \<Rightarrow> real list \<Rightarrow> fault + real list" where
  "current_src debug vp_params cr_params x t j =
     bind_fault (int_mul (int (length vp_params)) (int (length cr_params))) (\<lambda>prod.
       if prod = 0 then
         bind_fault (if length vp_params > 0 then voltaic_pile vp_params x t else Inr j) (\<lambda>j.
           if length cr_params > 0 then current_ring debug cr_params x t else Inr j)
       else
         bind_fault (voltaic_pile vp_params x t) (\<lambda>j.
         bind_fault (current_ring debug cr_params x t) (\<lambda>j_cr.
         add_assign j j_cr)))"

section \<open>Lemmas on the arithmetic\<close>

lemma ceil_log10_le_iff: "0 < x \<Longrightarrow> \<lceil>log 10 x\<rceil> \<le> k \<longleftrightarrow> x \<le> 10 powr (real_of_int k)"
  by (simp add: ceiling_le_iff log_le_iff)

lemma less_ceil_log10_iff: "0 < x \<Longrightarrow> k < \<lceil>log 10 x\<rceil> \<longleftrightarrow> 10 powr (real_of_int k) < x"
  by (simp add: less_ceiling_iff less_log_iff)

lemma ceil_log10_eqI:
  assumes "0 < x" "10 powr (real_of_int (k - 1)) < x" "x \<le> 10 powr (real_of_int k)"
  shows "\<lceil>log 10 x\<rceil> = k"
proof -
  have "\<lceil>log 10 x\<rceil> \<le> k" using assms by (simp add: ceil_log10_le_iff)
  moreover have "k - 1 < \<lceil>log 10 x\<rceil>" using assms(1,2) by (simp only: less_ceil_log10_iff)
  ultimately show ?thesis by linarith
qed

lemma powr10_int: "10 powr real_of_int (int n) = (10::real) ^ n"
  by (simp add: powr_realpow)

lemma powr10_neg_int: "10 powr real_of_int (- int n) = 1 / (10::real) ^ n"
  by (simp add: powr_minus powr_realpow divide_inverse)

lemma ceil_log10_pos: "10 ^ n < x \<Longrightarrow> x \<le> 10 ^ Suc n \<Longrightarrow> \<lceil>log 10 x\<rceil> = int (Suc n)"
  for x :: real
proof (rule ceil_log10_eqI)
  assume a: "10 ^ n < x" "x \<le> 10 ^ Suc n"
  have "(0::real) < 10 ^ n" by simp
  then show "0 < x" using a by linarith
  have "int (Suc n) - 1 = int n" by simp
  then show "10 powr (real_of_int (int (Suc n) - 1)) < x" using a powr10_int[of n] by simp
  show "x \<le> 10 powr real_of_int (int (Suc n))" using a(2) by (simp only: powr10_int)
qed


lemma in_int_iff: "in_int k \<longleftrightarrow> - 2147483648 \<le> k \<and> k \<le> 2147483647"
  by (simp add: in_int_def INT_MIN_def INT_MAX_def)

lemma in_intI: "0 \<le> k \<Longrightarrow> k \<le> 2147483647 \<Longrightarrow> in_int k"
  by (simp add: in_int_iff)

lemma int_of_double_of_int: "in_int k \<Longrightarrow> int_of_double (real_of_int k) = Inr k"
  by (simp add: int_of_double_def)

lemma pow10_le_int: "n \<le> 9 \<Longrightarrow> (10::int) ^ n \<le> 1000000000"
  using power_increasing[of n 9 "10::int"] by simp

lemma int_of_double_pow10_nonneg:
  assumes "n \<le> 9"
  shows "int_of_double (pow 10 (real_of_int (int n))) = Inr (10 ^ n)"
proof -
  have "pow 10 (real_of_int (int n)) = real_of_int (10 ^ n)"
    by (simp add: pow_def powr_realpow)
  moreover have "in_int (10 ^ n)"
    using pow10_le_int[OF assms] by (intro in_intI) simp_all
  ultimately show ?thesis by (simp only: int_of_double_of_int)
qed

lemma powr10_neg_bounds:
  assumes "a < 0"
  shows "0 < 10 powr real_of_int a" "10 powr real_of_int a < 1"
proof -
  show "0 < 10 powr real_of_int a" by simp
  have "real_of_int a < 0" using assms by simp
  then have "(10::real) powr real_of_int a < 10 powr 0" by (simp only: powr_less_cancel_iff)
  then show "10 powr real_of_int a < 1" by simp
qed

lemma int_of_double_pow10_neg:
  assumes "a < 0"
  shows "int_of_double (pow 10 (real_of_int a)) = Inr 0"
proof -
  have "\<lfloor>10 powr real_of_int a\<rfloor> = 0"
    using powr10_neg_bounds[OF assms] by (simp add: floor_eq_iff)
  then show ?thesis
    by (simp add: int_of_double_def pow_def in_int_iff)
qed

lemma int_of_double_pow5:
  assumes "i \<le> 5"
  shows "int_of_double (pow 5 (real_of_int (int i))) = Inr (5 ^ i)"
proof -
  have "pow 5 (real_of_int (int i)) = real_of_int (5 ^ i)"
    by (simp add: pow_def powr_realpow)
  moreover have "(5::int) ^ i \<le> 5 ^ 5"
    using assms by (intro power_increasing) simp_all
  then have "in_int (5 ^ i)" by (intro in_intI) simp_all
  ultimately show ?thesis by (simp only: int_of_double_of_int)
qed

lemma le_powr_ceil_log10: "0 < x \<Longrightarrow> x \<le> 10 powr real_of_int \<lceil>log 10 x\<rceil>"
  using ceil_log10_le_iff[of x "\<lceil>log 10 x\<rceil>"] by simp

lemma spec_power_of_ten_ge: "0 < r \<Longrightarrow> r \<le> spec_power_of_ten r"
  by (simp add: spec_power_of_ten_def le_powr_ceil_log10)

lemma spec_family_ge:
  assumes "0 < r"
  shows "r \<le> spec_family i r"
proof -
  have "r / 5 ^ i \<le> 10 powr real_of_int \<lceil>log 10 (r / 5 ^ i)\<rceil>"
    using assms by (intro le_powr_ceil_log10) simp
  also have "\<dots> \<le> max 1 (10 powr real_of_int \<lceil>log 10 (r / 5 ^ i)\<rceil>)" by simp
  finally have "r / 5 ^ i \<le> max 1 (10 powr real_of_int \<lceil>log 10 (r / 5 ^ i)\<rceil>)" .
  then have "r \<le> max 1 (10 powr real_of_int \<lceil>log 10 (r / 5 ^ i)\<rceil>) * 5 ^ i"
    by (simp add: pos_divide_le_eq)
  then show ?thesis by (simp add: spec_family_def mult.commute)
qed

lemma cast_ceil_log10_ok:
  assumes "1 / 10 ^ 9 < x" "x \<le> 10 ^ b" "b \<le> 9"
  shows "cast_ceil_log10 x = Inr \<lceil>log 10 x\<rceil>" "- 9 \<le> \<lceil>log 10 x\<rceil>" "\<lceil>log 10 x\<rceil> \<le> int b"
proof -
  have pos: "0 < x" using assms(1) by (rule less_trans[rotated]) simp
  have "10 powr real_of_int (- int 9) < x" using assms(1) by (simp only: powr10_neg_int)
  then have "- int 9 < \<lceil>log 10 x\<rceil>" using pos by (simp only: less_ceil_log10_iff)
  then show lo: "- 9 \<le> \<lceil>log 10 x\<rceil>" by simp
  have "x \<le> 10 powr real_of_int (int b)" using assms(2) by (simp only: powr10_int)
  then show hi: "\<lceil>log 10 x\<rceil> \<le> int b" using pos by (simp only: ceil_log10_le_iff)
  have "in_int \<lceil>log 10 x\<rceil>" unfolding in_int_iff using lo hi assms(3) by linarith
  then show "cast_ceil_log10 x = Inr \<lceil>log 10 x\<rceil>"
    using pos by (simp add: cast_ceil_log10_def int_of_double_of_int)
qed

lemma snap_candidate_family:
  assumes i: "1 \<le> i" "i \<le> 5"
    and lo: "1 / 10 ^ 9 < d / 5 ^ i"
    and hi: "d / 5 ^ i \<le> 10 ^ b" and b: "b \<le> 9"
    and fit: "(5::int) ^ i * 10 ^ b \<le> 2147483647"
  shows "\<exists>c. snap_candidate d (int i) = Inr c \<and> real_of_int c = spec_family i d"
proof -
  let ?x = "d / 5 ^ i"
  let ?a = "\<lceil>log 10 ?x\<rceil>"
  have x: "d / pow 5 (real_of_int (int i)) = ?x" by (simp add: pow_def powr_realpow)
  note c = cast_ceil_log10_ok[OF lo hi b]
  have p5: "int_of_double (pow 5 (real_of_int (int i))) = Inr (5 ^ i)"
    using i by (simp only: int_of_double_pow5)
  have five: "(5::int) ^ i \<le> 5 ^ 5" using i by (intro power_increasing) simp_all
  show ?thesis
  proof (cases "0 \<le> ?a")
    case True
    then obtain n where n: "?a = int n" using nonneg_int_cases by blast
    with c(3) have nb: "n \<le> b" by simp
    then have n9: "n \<le> 9" using b by simp
    have p10: "int_of_double (pow 10 (real_of_int ?a)) = Inr (10 ^ n)"
      using n int_of_double_pow10_nonneg[OF n9] by simp
    have "(10::int) ^ n \<le> 10 ^ b" using nb by (intro power_increasing) simp_all
    then have "(5::int) ^ i * 10 ^ n \<le> 5 ^ i * 10 ^ b" by (intro mult_left_mono) simp_all
    then have "(5::int) ^ i * 10 ^ n \<le> 2147483647" using fit by (rule order_trans)
    then have "in_int (5 ^ i * 10 ^ n)" by (intro in_intI) simp_all
    then have mul: "int_mul (5 ^ i) (10 ^ n) = Inr (5 ^ i * 10 ^ n)"
      by (simp add: int_mul_def)
    have mx: "max 1 ((10::int) ^ n) = 10 ^ n" by (simp add: max_def)
    have "snap_candidate d (int i) = Inr (5 ^ i * 10 ^ n)"
      by (simp add: snap_candidate_def bind_fault_def x c(1) p5 p10 mx mul del: of_int_of_nat_eq)
    moreover have "spec_family i d = real_of_int (5 ^ i * 10 ^ n)"
      by (simp add: spec_family_def n powr_realpow max_def)
    ultimately show ?thesis by simp
  next
    case False
    then have neg: "?a < 0" by simp
    have p10: "int_of_double (pow 10 (real_of_int ?a)) = Inr 0"
      using neg by (rule int_of_double_pow10_neg)
    have "in_int (5 ^ i)" using five by (intro in_intI) simp_all
    then have mul: "int_mul (5 ^ i) 1 = Inr (5 ^ i)"
      by (simp add: int_mul_def)
    have "snap_candidate d (int i) = Inr (5 ^ i)"
      by (simp add: snap_candidate_def bind_fault_def x c(1) p5 p10 mul del: of_int_of_nat_eq)
    moreover have "max 1 (10 powr real_of_int ?a) = 1"
      using powr10_neg_bounds(2)[OF neg] by (simp add: max_def)
    then have "spec_family i d = real_of_int (5 ^ i)"
      by (simp add: spec_family_def)
    ultimately show ?thesis by simp
  qed
qed

declare snap_loop.simps [simp del]

lemma snap_loop_unroll:
  assumes "snap_candidate d 1 = Inr c1" "snap_candidate d 2 = Inr c2"
    "snap_candidate d 3 = Inr c3" "snap_candidate d 4 = Inr c4" "snap_candidate d 5 = Inr c5"
  shows "snap_loop d 1 n = Inr (min (min (min (min (min n c1) c2) c3) c4) c5)"
proof -
  have "snap_loop d 6 m = Inr m" for m
    by (simp add: snap_loop.simps)
  then have "snap_loop d 5 m = Inr (min m c5)" for m
    by (subst snap_loop.simps) (simp add: bind_fault_def assms)
  then have "snap_loop d 4 m = Inr (min (min m c4) c5)" for m
    by (subst snap_loop.simps) (simp add: bind_fault_def assms)
  then have "snap_loop d 3 m = Inr (min (min (min m c3) c4) c5)" for m
    by (subst snap_loop.simps) (simp add: bind_fault_def assms)
  then have "snap_loop d 2 m = Inr (min (min (min (min m c2) c3) c4) c5)" for m
    by (subst snap_loop.simps) (simp add: bind_fault_def assms)
  then show ?thesis
    by (subst snap_loop.simps) (simp add: bind_fault_def assms)
qed



lemma atLeastAtMost_1_5: "{1..5::nat} = {1, 2, 3, 4, 5}"
  by auto

lemma spec_candidates_eq:
  "spec_candidates r = {spec_power_of_ten r, spec_family 1 r, spec_family 2 r,
     spec_family 3 r, spec_family 4 r, spec_family 5 r}"
  unfolding spec_candidates_def atLeastAtMost_1_5 by (simp only: image_insert image_empty)

lemma spec_quantize_min:
  assumes "0 < r"
  shows "spec_quantize r =
    min (min (min (min (min (spec_power_of_ten r) (spec_family 1 r)) (spec_family 2 r))
      (spec_family 3 r)) (spec_family 4 r)) (spec_family 5 r)"
proof -
  have "{c \<in> spec_candidates r. r \<le> c} = spec_candidates r"
    using spec_power_of_ten_ge[OF assms] spec_family_ge[OF assms]
    by (auto simp: spec_candidates_def)
  then have "spec_quantize r = Min (spec_candidates r)"
    by (simp only: spec_quantize_def)
  also have "\<dots> = min (spec_power_of_ten r) (min (spec_family 1 r) (min (spec_family 2 r)
      (min (spec_family 3 r) (min (spec_family 4 r) (spec_family 5 r)))))"
    unfolding spec_candidates_eq by (simp del: One_nat_def)
  finally show ?thesis by (simp only: min.assoc)
qed

lemma first_candidate:
  assumes "1 / 10 < d" "d \<le> 10 ^ 9"
  shows "\<exists>c. bind_fault (cast_ceil_log10 d) (\<lambda>a0. int_of_double (pow 10 (real_of_int a0))) = Inr c
     \<and> real_of_int c = spec_power_of_ten d"
proof -
  have lo: "1 / 10 ^ 9 < d" using assms(1) by simp
  note c = cast_ceil_log10_ok[OF lo assms(2) order_refl]
  have pos: "0 < d" using assms(1) by simp
  have "10 powr real_of_int (- int 1) < d" using assms(1) by (simp only: powr10_neg_int) simp
  then have "- int 1 < \<lceil>log 10 d\<rceil>" using pos by (simp only: less_ceil_log10_iff)
  then have "0 \<le> \<lceil>log 10 d\<rceil>" by linarith
  then obtain n where n: "\<lceil>log 10 d\<rceil> = int n" using nonneg_int_cases by blast
  with c(3) have n9: "n \<le> 9" by simp
  have "int_of_double (pow 10 (real_of_int \<lceil>log 10 d\<rceil>)) = Inr (10 ^ n)"
    using n int_of_double_pow10_nonneg[OF n9] by simp
  moreover have "spec_power_of_ten d = real_of_int (10 ^ n)"
    by (simp add: spec_power_of_ten_def n powr_realpow)
  ultimately show ?thesis by (simp add: bind_fault_def c(1))
qed

lemma SnapTimeStep_nsteps_range:
  assumes d: "1 / 10 < d" "d \<le> 250000000" and dt: "dtmax \<noteq> 0" "tmax / dtmax = d"
  shows "\<exists>n. SnapTimeStep_nsteps tmax dtmax = Inr n \<and> real_of_int n = spec_quantize d"
proof -
  have pos: "0 < d" using d(1) by simp
  obtain c0 where c0: "bind_fault (cast_ceil_log10 d) (\<lambda>a0. int_of_double (pow 10 (real_of_int a0))) = Inr c0"
      "real_of_int c0 = spec_power_of_ten d"
    using first_candidate[of d] d by auto
  obtain c1 where c1: "snap_candidate d 1 = Inr c1" "real_of_int c1 = spec_family 1 d"
    using snap_candidate_family[of 1 d 8] d by auto
  obtain c2 where c2: "snap_candidate d 2 = Inr c2" "real_of_int c2 = spec_family 2 d"
    using snap_candidate_family[of 2 d 7] d by auto
  obtain c3 where c3: "snap_candidate d 3 = Inr c3" "real_of_int c3 = spec_family 3 d"
    using snap_candidate_family[of 3 d 7] d by auto
  obtain c4 where c4: "snap_candidate d 4 = Inr c4" "real_of_int c4 = spec_family 4 d"
    using snap_candidate_family[of 4 d 6] d by auto
  obtain c5 where c5: "snap_candidate d 5 = Inr c5" "real_of_int c5 = spec_family 5 d"
    using snap_candidate_family[of 5 d 5] d by auto
  let ?n = "min (min (min (min (min c0 c1) c2) c3) c4) c5"
  have loop: "snap_loop d 1 c0 = Inr ?n"
    using c1(1) c2(1) c3(1) c4(1) c5(1) by (rule snap_loop_unroll)
  obtain a0 where a0: "cast_ceil_log10 d = Inr a0" "int_of_double (pow 10 (real_of_int a0)) = Inr c0"
    using c0(1) by (auto simp: bind_fault_def split: sum.splits)
  have "SnapTimeStep_nsteps tmax dtmax = Inr ?n"
    using dt by (simp add: SnapTimeStep_nsteps_def bind_fault_def a0 loop)
  moreover have "real_of_int ?n = spec_quantize d"
    by (simp only: spec_quantize_min[OF pos] of_int_min c0(2) c1(2) c2(2) c3(2) c4(2) c5(2))
  ultimately show ?thesis by blast
qed

lemma int_of_double_pow10:
  assumes "a \<le> 9"
  shows "int_of_double (pow 10 (real_of_int a)) = Inr (if 0 \<le> a then 10 ^ nat a else 0)"
proof (cases "0 \<le> a")
  case True
  then have "nat a \<le> 9" using assms by simp
  from int_of_double_pow10_nonneg[OF this] True show ?thesis by simp
next
  case False
  then show ?thesis using int_of_double_pow10_neg[of a] by simp
qed

lemma snap_candidate_eval:
  assumes "\<lceil>log 10 (d / 5 ^ i)\<rceil> = a" "0 < d" "i \<le> 5" "- 2147483648 \<le> a" "a \<le> 9"
  shows "snap_candidate d (int i) = int_mul (5 ^ i) (max 1 (if 0 \<le> a then 10 ^ nat a else 0))"
proof -
  have x: "d / pow 5 (real_of_int (int i)) = d / 5 ^ i" by (simp add: pow_def powr_realpow)
  have "0 < d / 5 ^ i" using assms(2) by simp
  moreover have "in_int a" using assms(4,5) by (simp add: in_int_iff)
  ultimately have c: "cast_ceil_log10 (d / 5 ^ i) = Inr a"
    using assms(1) by (simp add: cast_ceil_log10_def int_of_double_of_int)
  show ?thesis
    by (simp add: snap_candidate_def bind_fault_def x c int_of_double_pow5[OF assms(3)]
        int_of_double_pow10[OF assms(5)] del: of_int_of_nat_eq)
qed

lemma first_candidate_eval:
  assumes "\<lceil>log 10 d\<rceil> = a" "0 < d" "- 2147483648 \<le> a" "a \<le> 9"
  shows "bind_fault (cast_ceil_log10 d) (\<lambda>a0. int_of_double (pow 10 (real_of_int a0)))
     = Inr (if 0 \<le> a then 10 ^ nat a else 0)"
proof -
  have "in_int a" using assms(3,4) by (simp add: in_int_iff)
  then have c: "cast_ceil_log10 d = Inr a"
    using assms(1,2) by (simp add: cast_ceil_log10_def int_of_double_of_int)
  show ?thesis
    by (simp add: bind_fault_def c int_of_double_pow10[OF assms(4)])
qed

lemma SnapTimeStep_nsteps_eval:
  assumes "dtmax \<noteq> 0" "tmax / dtmax = d"
    and "bind_fault (cast_ceil_log10 d) (\<lambda>a0. int_of_double (pow 10 (real_of_int a0))) = Inr c0"
    and "snap_loop d 1 c0 = r"
  shows "SnapTimeStep_nsteps tmax dtmax = r"
  using assms by (auto simp: SnapTimeStep_nsteps_def bind_fault_def Let_def split: sum.splits)



lemma SnapTimeStep_nsteps_small:
  assumes d: "1 / 10 ^ 5 < d" "d \<le> 1 / 10" and dt: "dtmax \<noteq> 0" "tmax / dtmax = d"
  shows "SnapTimeStep_nsteps tmax dtmax = Inr 0"
proof -
  have pos: "0 < d" using d(1) by (rule less_trans[rotated]) simp
  have lo: "1 / 10 ^ 9 < d" using d(1) by (rule less_trans[rotated]) simp
  have hi: "d \<le> 10 ^ 0" using d(2) by simp
  note c = cast_ceil_log10_ok[OF lo hi]
  have "d \<le> 10 powr real_of_int (- int 1)" using d(2) by (simp only: powr10_neg_int) simp
  then have "\<lceil>log 10 d\<rceil> \<le> - int 1" using pos by (simp only: ceil_log10_le_iff)
  then have "\<lceil>log 10 d\<rceil> < 0" by linarith
  then have "int_of_double (pow 10 (real_of_int \<lceil>log 10 d\<rceil>)) = Inr 0"
    by (rule int_of_double_pow10_neg)
  then have c0: "bind_fault (cast_ceil_log10 d) (\<lambda>a0. int_of_double (pow 10 (real_of_int a0))) = Inr 0"
    using c(1) by (simp add: bind_fault_def)
  have cand: "\<exists>c. snap_candidate d (int i) = Inr c \<and> 0 \<le> c" if i: "1 \<le> i" "i \<le> 5" for i
  proof -
    have "(5::real) ^ i \<le> 5 ^ 5" using i by (intro power_increasing) simp_all
    then have five: "(5::real) ^ i \<le> 3125" by simp
    have "1 / 10 ^ 9 * 5 ^ i \<le> 1 / 10 ^ 9 * (3125::real)" using five by (intro mult_left_mono) simp_all
    also have "\<dots> < 1 / 10 ^ 5" by simp
    finally have "1 / 10 ^ 9 * 5 ^ i < d" using d(1) by linarith
    then have l: "1 / 10 ^ 9 < d / 5 ^ i" by (simp add: pos_less_divide_eq)
    have "(1::real) \<le> 5 ^ i" by (rule one_le_power) simp
    then have "d \<le> 1 * 5 ^ i" using d(2) by linarith
    then have h: "d / 5 ^ i \<le> 10 ^ 0" by (simp add: pos_divide_le_eq)
    have "(5::int) ^ i \<le> 5 ^ 5" using i by (intro power_increasing) simp_all
    then have f: "(5::int) ^ i * 10 ^ 0 \<le> 2147483647" by simp
    obtain c where c: "snap_candidate d (int i) = Inr c" "real_of_int c = spec_family i d"
      using snap_candidate_family[OF i l h _ f] by auto
    have "0 < real_of_int c" using spec_family_ge[OF pos, of i] pos c(2) by linarith
    then show ?thesis using c(1) by auto
  qed
  obtain c1 where c1: "snap_candidate d 1 = Inr c1" "0 \<le> c1" using cand[of 1] by auto
  obtain c2 where c2: "snap_candidate d 2 = Inr c2" "0 \<le> c2" using cand[of 2] by auto
  obtain c3 where c3: "snap_candidate d 3 = Inr c3" "0 \<le> c3" using cand[of 3] by auto
  obtain c4 where c4: "snap_candidate d 4 = Inr c4" "0 \<le> c4" using cand[of 4] by auto
  obtain c5 where c5: "snap_candidate d 5 = Inr c5" "0 \<le> c5" using cand[of 5] by auto
  have "snap_loop d 1 0 = Inr 0"
    using snap_loop_unroll[OF c1(1) c2(1) c3(1) c4(1) c5(1), of 0] c1(2) c2(2) c3(2) c4(2) c5(2)
    by simp
  with c0 show ?thesis by (rule SnapTimeStep_nsteps_eval[OF dt])
qed

lemma SnapTimeStep_small:
  assumes "1 / 10 ^ 5 < tmax / dtmax" "tmax / dtmax \<le> 1 / 10"
  shows "SnapTimeStep tmax dtmax = Inl DivideByZero"
proof -
  have "dtmax \<noteq> 0" using assms(1) by auto
  from SnapTimeStep_nsteps_small[OF assms this refl] show ?thesis
    by (simp add: SnapTimeStep_def bind_fault_def)
qed






lemma SnapTimeStep_nsteps_40:
  "SnapTimeStep_nsteps 40 (4025 / 1000000) = Inr 10000"
proof -
  let ?d = "40 / (4025 / 1000000) :: real"
  have f: "bind_fault (cast_ceil_log10 ?d) (\<lambda>a0. int_of_double (pow 10 (real_of_int a0))) = Inr 10000"
    using first_candidate_eval[of ?d 4] ceil_log10_pos[of 3 ?d] by simp
  have c1: "snap_candidate ?d 1 = Inr 50000"
    using snap_candidate_eval[of ?d 1 4] ceil_log10_pos[of 3 "?d / 5 ^ 1"] by (simp add: int_mul_def in_int_iff)
  have c2: "snap_candidate ?d 2 = Inr 25000"
    using snap_candidate_eval[of ?d 2 3] ceil_log10_pos[of 2 "?d / 5 ^ 2"] by (simp add: int_mul_def in_int_iff)
  have c3: "snap_candidate ?d 3 = Inr 12500"
    using snap_candidate_eval[of ?d 3 2] ceil_log10_pos[of 1 "?d / 5 ^ 3"] by (simp add: int_mul_def in_int_iff)
  have c4: "snap_candidate ?d 4 = Inr 62500"
    using snap_candidate_eval[of ?d 4 2] ceil_log10_pos[of 1 "?d / 5 ^ 4"] by (simp add: int_mul_def in_int_iff)
  have c5: "snap_candidate ?d 5 = Inr 31250"
    using snap_candidate_eval[of ?d 5 1] ceil_log10_pos[of 0 "?d / 5 ^ 5"] by (simp add: int_mul_def in_int_iff)
  have loop: "snap_loop ?d 1 10000 = Inr 10000"
    using snap_loop_unroll[OF c1 c2 c3 c4 c5, of 10000] by simp
  show ?thesis
    by (rule SnapTimeStep_nsteps_eval[OF _ refl f loop]) simp
qed

section \<open>The step quantizer on a platform: lemmas\<close>

declare snap_loop_fp.simps [simp del]

lemma exact_platform_simps [simp]:
  "fdiv exact_platform x y = x / y" "flog10 exact_platform = log 10" "fpow exact_platform = pow"
  by (simp_all add: exact_platform_def)

lemma snap_loop_fp_cong:
  assumes "\<And>j. i \<le> j \<Longrightarrow> j \<le> 5 \<Longrightarrow> snap_candidate_fp F x j = snap_candidate r j"
  shows "snap_loop_fp F x i n = snap_loop r i n"
  using assms
proof (induction r i n rule: snap_loop.induct)
  case (1 dsteps i nsteps)
  show ?case
  proof (cases "i \<le> 5")
    case True
    have c: "snap_candidate_fp F x i = snap_candidate dsteps i" using "1.prems"[of i] True by simp
    have IH: "snap_loop_fp F x (i + 1) (min nsteps m) = snap_loop dsteps (i + 1) (min nsteps m)" for m
      using "1.IH"[OF True] "1.prems" by simp
    show ?thesis
      using True by (subst snap_loop_fp.simps, subst snap_loop.simps) (simp add: c IH)
  next
    case False
    then show ?thesis by (subst snap_loop_fp.simps, subst snap_loop.simps) simp
  qed
qed








lemma SnapTimeStep_fp_exact: "SnapTimeStep_fp exact_platform tmax dtmax = SnapTimeStep tmax dtmax"
proof -
  have c: "cast_ceil_log10_fp exact_platform x = cast_ceil_log10 x" for x
    by (simp add: cast_ceil_log10_fp_def cast_ceil_log10_def)
  have s: "snap_candidate_fp exact_platform x i = snap_candidate x i" for x i
    by (simp add: snap_candidate_fp_def snap_candidate_def c)
  have "snap_loop_fp exact_platform x 1 n = snap_loop x 1 n" for x n
    by (rule snap_loop_fp_cong) (rule s)
  then have l: "snap_loop_fp exact_platform x 1 = snap_loop x 1" for x
    by (intro ext)
  have n: "SnapTimeStep_nsteps_fp exact_platform tmax dtmax = SnapTimeStep_nsteps tmax dtmax"
    by (simp add: SnapTimeStep_nsteps_fp_def SnapTimeStep_nsteps_def c l Let_def)
  show ?thesis
    by (simp add: SnapTimeStep_fp_def SnapTimeStep_def n cong: if_cong)
qed


lemma rne_cases: "rne z = \<lfloor>z\<rfloor> \<or> rne z = \<lfloor>z\<rfloor> + 1"
  by (simp add: rne_def Let_def)


lemma rne_ge:
  assumes "real_of_int m \<le> z"
  shows "m \<le> rne z"
proof -
  have "m \<le> \<lfloor>z\<rfloor>" using assms by (simp add: le_floor_iff)
  then show ?thesis using rne_cases[of z] by auto
qed




















lemma le5_cases: "i \<le> (5::nat) \<Longrightarrow> i = 0 \<or> i = 1 \<or> i = 2 \<or> i = 3 \<or> i = 4 \<or> i = 5"
  by arith


















section \<open>The step quantizer: results\<close>










text \<open>
  Claim C4 says that for every positive duration and every positive stability bound the
  step count returned is at least 1, so that \<^verbatim>\<open>dt = tmax / nsteps\<close> never divides by zero.
  For the duration 1 and the stability bound 20 the power-of-ten candidate is
  \<open>(int)pow(10, -1) = 0\<close>; the loop guards its own candidates with \<^verbatim>\<open>max(1, ...)\<close>, the
  first candidate has no such guard, and the step count returned is 0: the division that
  defines the step size divides by zero.
\<close>

theorem SnapTimeStep_zero_steps:
  "SnapTimeStep_nsteps 1 20 = Inr 0 \<and> SnapTimeStep 1 20 = Inl DivideByZero"
  using SnapTimeStep_nsteps_small[of "1 / 20" 20 1] SnapTimeStep_small[of 1 20] by simp

text \<open>
  Claim C5.  For the duration 40 and the stability bound \<open>4.025e-3\<close>, a ratio within 1 of
  9938.5, \<^verbatim>\<open>SnapTimeStep\<close> returns the step count 10000, the smallest candidate that is
  at least the ratio; the step size is \<open>0.004\<close>, its product with the step count is 40
  and it is at most \<open>4.025e-3\<close>.
\<close>

theorem SnapTimeStep_40_ns:
  "SnapTimeStep 40 (4025 / 1000000) = Inr (10000, 4 / 1000)
   \<and> spec_quantize (40 / (4025 / 1000000)) = 10000
   \<and> real_of_int 10000 * (4 / 1000) = (40::real)
   \<and> (4::real) / 1000 \<le> 4025 / 1000000
   \<and> \<bar>40 / (4025 / 1000000) - 99385 / 10\<bar> < (1::real)"
proof -
  have s: "SnapTimeStep 40 (4025 / 1000000) = Inr (10000, 4 / 1000)"
    using SnapTimeStep_nsteps_40 by (simp add: SnapTimeStep_def bind_fault_def)
  obtain n where n: "SnapTimeStep_nsteps 40 (4025 / 1000000) = Inr n"
      "real_of_int n = spec_quantize (40 / (4025 / 1000000))"
    using SnapTimeStep_nsteps_range[of "40 / (4025 / 1000000)" "4025 / 1000000" 40] by auto
  then have "spec_quantize (40 / (4025 / 1000000)) = 10000"
    using SnapTimeStep_nsteps_40 by simp
  with s show ?thesis by simp
qed

section \<open>The driving loop: results\<close>

declare time_loop.simps [simp del]

lemma INT_MAX_eq: "INT_MAX = 2147483647" by (simp add: INT_MAX_def)

lemma time_loop_runs:
  assumes "nsteps < INT_MAX"
  shows "time_loop dt nsteps it s =
    Inr (s\<lparr>time := time s + real (nat (nsteps + 1 - it)) * dt,
           step_calls := step_calls s + nat (nsteps + 1 - it)\<rparr>)"
  using assms
proof (induction dt nsteps it s rule: time_loop.induct)
  case (1 dt nsteps it s)
  show ?case
  proof (cases "it \<le> nsteps")
    case True
    then have ne: "it \<noteq> INT_MAX" using "1.prems" by simp
    have n: "nat (nsteps + 1 - it) = Suc (nat (nsteps + 1 - (it + 1)))" using True by simp
    have "time_loop dt nsteps it s = time_loop dt nsteps (it + 1) (Step dt s)"
      using True ne by (subst time_loop.simps) simp
    also have "\<dots> = Inr ((Step dt s)\<lparr>time := time (Step dt s) + real (nat (nsteps + 1 - (it + 1))) * dt,
           step_calls := step_calls (Step dt s) + nat (nsteps + 1 - (it + 1))\<rparr>)"
      using "1.IH"[OF True ne "1.prems"] .
    also have "\<dots> = Inr (s\<lparr>time := time s + real (nat (nsteps + 1 - it)) * dt,
           step_calls := step_calls s + nat (nsteps + 1 - it)\<rparr>)"
      unfolding n by (simp add: Step_def algebra_simps)
    finally show ?thesis .
  next
    case False
    then have "nat (nsteps + 1 - it) = 0" by simp
    then show ?thesis using False by (subst time_loop.simps) simp
  qed
qed

lemma int_of_double_Inr:
  assumes "int_of_double x = Inr k"
  shows "in_int k" "0 \<le> x \<Longrightarrow> k = \<lfloor>x\<rfloor>"
  using assms by (auto simp: int_of_double_def Let_def split: if_splits)

lemma int_mul_Inr: "int_mul a b = Inr c \<Longrightarrow> c = a * b"
  by (auto simp: int_mul_def split: if_splits)

lemma snap_candidate_nonneg:
  assumes "snap_candidate d i = Inr c"
  shows "0 \<le> c"
proof -
  obtain p5 p10 where p5: "int_of_double (pow 5 (real_of_int i)) = Inr p5"
    and mul: "int_mul p5 (max 1 p10) = Inr c"
    using assms by (auto simp: snap_candidate_def bind_fault_def split: sum.splits)
  have "0 \<le> pow 5 (real_of_int i)" by (simp add: pow_def)
  from int_of_double_Inr(2)[OF p5 this] have "0 \<le> p5" by (simp add: pow_def)
  moreover have "0 \<le> max 1 p10" by simp
  ultimately show ?thesis using int_mul_Inr[OF mul] by simp
qed

lemma snap_loop_bounds:
  assumes "snap_loop d i m = Inr n" "0 \<le> m"
  shows "0 \<le> n \<and> n \<le> m"
  using assms
proof (induction d i m rule: snap_loop.induct)
  case (1 dsteps i nsteps)
  show ?case
  proof (cases "i \<le> 5")
    case True
    then obtain c where c: "snap_candidate dsteps i = Inr c"
      and r: "snap_loop dsteps (i + 1) (min nsteps c) = Inr n"
      using "1.prems"(1) by (subst (asm) snap_loop.simps) (auto simp: bind_fault_def split: sum.splits)
    have "0 \<le> min nsteps c" using snap_candidate_nonneg[OF c] "1.prems"(2) by simp
    from "1.IH"[OF True r this] show ?thesis by simp
  next
    case False
    then show ?thesis using "1.prems" by (subst (asm) snap_loop.simps) simp
  qed
qed

lemma int_of_double_pow10_Inr:
  assumes "int_of_double (pow 10 (real_of_int a)) = Inr c"
  shows "0 \<le> c \<and> c \<le> 1000000000"
proof -
  have nn: "0 \<le> pow 10 (real_of_int a)" by (simp add: pow_def)
  note c = int_of_double_Inr[OF assms]
  have c2: "c = \<lfloor>10 powr real_of_int a\<rfloor>" using c(2)[OF nn] by (simp add: pow_def)
  have "a \<le> 9"
  proof (rule ccontr)
    assume "\<not> a \<le> 9"
    then have "10 \<le> a" by simp
    then have "real_of_int 10 \<le> real_of_int a" by (simp only: of_int_le_iff)
    then have "(10::real) powr real_of_int 10 \<le> 10 powr real_of_int a"
      by (rule powr_mono) simp
    then have "(10000000000::real) \<le> 10 powr real_of_int a" by simp
    then have "10000000000 \<le> \<lfloor>10 powr real_of_int a\<rfloor>" by (simp add: le_floor_iff)
    then show False using c(1) c2 by (simp add: in_int_iff)
  qed
  then have "c = (if 0 \<le> a then 10 ^ nat a else 0)"
    using int_of_double_pow10[of a] assms by simp
  moreover have "(10::int) ^ nat a \<le> 1000000000" if "0 \<le> a"
    using \<open>a \<le> 9\<close> that by (intro pow10_le_int) simp
  ultimately show ?thesis by (auto split: if_splits)
qed

lemma SnapTimeStep_Inr:
  assumes "SnapTimeStep tmax dtmax = Inr (n, dt)"
  shows "0 < n" "n \<le> 1000000000" "dt = tmax / real_of_int n"
proof -
  have s: "SnapTimeStep_nsteps tmax dtmax = Inr n" and n0: "n \<noteq> 0"
    and dt: "dt = tmax / real_of_int n"
    using assms by (auto simp: SnapTimeStep_def bind_fault_def split: sum.splits if_splits)
  obtain a0 c0 where c0: "int_of_double (pow 10 (real_of_int a0)) = Inr c0"
    and l: "snap_loop (tmax / dtmax) 1 c0 = Inr n"
    using s by (auto simp: SnapTimeStep_nsteps_def bind_fault_def Let_def split: sum.splits if_splits)
  note b = int_of_double_pow10_Inr[OF c0]
  from snap_loop_bounds[OF l] b have nb: "0 \<le> n \<and> n \<le> c0" by simp
  show "0 < n" using nb n0 by linarith
  show "n \<le> 1000000000" using nb b by linarith
  show "dt = tmax / real_of_int n" by fact
qed

lemma SnapTimeStep_40: "SnapTimeStep 40 (4025 / 1000000) = Inr (10000, 4 / 1000)"
  using SnapTimeStep_nsteps_40 by (simp add: SnapTimeStep_def bind_fault_def)

text \<open>
  Claim C6.  Once \<^verbatim>\<open>SnapTimeStep\<close> has returned the step count \<open>n\<close>, the driving loop calls
  the integrator's step exactly \<open>min(n, max_its)\<close> times (not at all when the cap is
  negative).  When \<open>n\<close> exceeds the cap the diagnostic line is written, \<^verbatim>\<open>nsteps\<close> becomes
  \<^verbatim>\<open>max_its\<close>, the run goes on, and the time reached stays below the requested duration;
  otherwise no diagnostic is written.
\<close>

theorem time_evolution_iterations:
  assumes "SnapTimeStep (tmax * (1 / 10 ^ 9)) dtmax = Inr (n, dt)"
  shows "\<exists>s. time_evolution tmax dtmax max_its = Inr s
    \<and> step_calls s = nat (min n max_its)
    \<and> (TooLarge \<in> set (cout s) \<longleftrightarrow> max_its < n)
    \<and> NumberOfTimeSteps (min n max_its) \<in> set (cout s)
    \<and> time s = real (nat (min n max_its)) * dt
    \<and> (max_its < n \<and> 0 < tmax \<longrightarrow> time s < tmax * (1 / 10 ^ 9))"
proof -
  note b = SnapTimeStep_Inr[OF assms]
  define m where "m = (if max_its < n then max_its else n)"
  define lines where "lines = [MaximumTimeStep dtmax] @ (if max_its < n then [TooLarge] else [])
            @ [NumberOfTimeSteps m, TimeStepSize dt]"
  have mm: "m = min n max_its" by (simp add: m_def min_def)
  have "m < INT_MAX" using b(2) by (simp add: INT_MAX_eq mm)
  then have loop: "time_loop dt m 1 \<lparr>time = 0, step_calls = 0, cout = lines\<rparr> =
      Inr \<lparr>time = real (nat m) * dt, step_calls = nat m, cout = lines\<rparr>"
    by (simp add: time_loop_runs)
  have run: "time_evolution tmax dtmax max_its =
      Inr \<lparr>time = real (nat m) * dt, step_calls = nat m, cout = lines\<rparr>"
    unfolding time_evolution_def assms bind_fault_def
    by (simp only: sum.case prod.case Let_def m_def[symmetric] lines_def[symmetric] loop)
  have short: "real (nat m) * dt < tmax * (1 / 10 ^ 9)" if "max_its < n" "0 < tmax"
  proof -
    let ?T = "tmax * (1 / 10 ^ 9)"
    have T: "0 < ?T" using that(2) by simp
    have "real (nat m) < real_of_int n" using that(1) b(1) by (simp add: m_def)
    then have "real (nat m) * ?T < real_of_int n * ?T" using T by (simp only: mult_less_cancel_right_pos)
    then have "real (nat m) * ?T / real_of_int n < ?T"
      using b(1) by (simp add: pos_divide_less_eq mult.commute)
    then show ?thesis by (simp add: b(3))
  qed
  have "TooLarge \<in> set lines \<longleftrightarrow> max_its < n" by (simp add: lines_def)
  moreover have "NumberOfTimeSteps (min n max_its) \<in> set lines" by (simp add: lines_def mm)
  ultimately show ?thesis
    unfolding run using short by (simp add: mm)
qed

theorem time_evolution_iterations_witness:
  "SnapTimeStep (40000000000 * (1 / 10 ^ 9)) (4025 / 1000000) = Inr (10000, 4 / 1000)
   \<and> (\<exists>s. time_evolution 40000000000 (4025 / 1000000) 100 = Inr s
    \<and> step_calls s = 100
    \<and> TooLarge \<in> set (cout s)
    \<and> NumberOfTimeSteps 100 \<in> set (cout s)
    \<and> time s = 4 / 10
    \<and> time s < 40)"
proof -
  have s: "SnapTimeStep (40000000000 * (1 / 10 ^ 9)) (4025 / 1000000) = Inr (10000, 4 / 1000)"
    using SnapTimeStep_40 by simp
  from time_evolution_iterations[OF s, of 100] s show ?thesis
    by simp
qed

section \<open>Operators: results\<close>

text \<open>
  Claim C8.  A \<^verbatim>\<open>MatrixInverse\<close> constructed from a matrix has the height and the width
  of that matrix.  It records nothing else of it: the elements of the source do not
  enter the inverse, and the source is not changed.
\<close>

theorem MatrixInverse_dimensions:
  "height (MatrixInverse mat) = height mat
   \<and> width (MatrixInverse mat) = width mat
   \<and> MatrixInverse (mat\<lparr>Elem := e\<rparr>) = MatrixInverse mat
   \<and> MatrixInverse (Matrix_hw h w e) = \<lparr>height = h, width = w\<rparr>"
  by (simp add: MatrixInverse_def Solver_def Operator_hw_def Matrix_hw_def Operator.extend_def)

text \<open>
  Claim C7.  For the dense and the sparse variant alike, \<^verbatim>\<open>Mult\<close> (the specification's
  \<^verbatim>\<open>apply\<close>) with an input vector whose length is not the width, or an output vector whose
  length is not the height, fails with \<^verbatim>\<open>DimensionMismatch\<close>; a result is returned only for
  matching lengths and has the length of the output vector, so nothing is truncated or
  padded.
\<close>

theorem Mult_dimension_mismatch:
  "(length x \<noteq> op_width A \<or> length y \<noteq> op_height A \<longrightarrow> Mult A x y = Inl DimensionMismatch)
   \<and> (\<forall>y'. Mult A x y = Inr y' \<longrightarrow>
         length x = op_width A \<and> length y = op_height A \<and> length y' = length y)"
  by (auto simp: Mult_def)

theorem Mult_dimension_mismatch_witness:
  "length [1, 2, 3 :: real] \<noteq> op_width \<lparr>op_height = 2, op_width = 2, op_storage = Dense [[1, 2], [3, 4]]\<rparr>
   \<and> Mult \<lparr>op_height = 2, op_width = 2, op_storage = Dense [[1, 2], [3, 4]]\<rparr> [1, 2, 3] [0, 0]
       = Inl DimensionMismatch
   \<and> length [0 :: real] \<noteq> op_height \<lparr>op_height = 2, op_width = 2, op_storage = Sparse [[(0, 1)], [(1, 4)]]\<rparr>
   \<and> Mult \<lparr>op_height = 2, op_width = 2, op_storage = Sparse [[(0, 1)], [(1, 4)]]\<rparr> [1, 2] [0]
       = Inl DimensionMismatch
   \<and> Mult \<lparr>op_height = 2, op_width = 2, op_storage = Dense [[1, 2], [3, 4]]\<rparr> [1, 1] [0, 0]
       = Inr [3, 7]
   \<and> length [3, 7 :: real] = length [0, 0 :: real]"
proof -
  let ?D = "\<lparr>op_height = 2, op_width = 2, op_storage = Dense [[1, 2], [3, 4]]\<rparr>"
  let ?S = "\<lparr>op_height = 2, op_width = 2, op_storage = Sparse [[(0, 1)], [(1, 4)]]\<rparr>"
  have r: "Mult ?D [1, 1] [0, 0] = Inr [3, 7]"
    by (simp add: Mult_def upt_rec)
  show ?thesis
    using Mult_dimension_mismatch[of "[1, 2, 3]" ?D "[0, 0]"]
      Mult_dimension_mismatch[of "[1, 2]" ?S "[0]"]
      Mult_dimension_mismatch[of "[1, 1]" ?D "[0, 0]"] r
    by simp
qed

section \<open>The source terms: results\<close>

declare axis_loop.simps [simp del]

lemma axis_loop_length:
  assumes "axis_loop params n i xu a = Inr (xu', a')"
  shows "length xu' = length xu \<and> length a' = length a"
  using assms
proof (induction params n i xu a rule: axis_loop.induct)
  case (1 params n i xu a)
  show ?case
  proof (cases "i < n")
    case True
    then obtain p0 p1 where
      r: "axis_loop params n (i + 1) (xu[i := xu ! i - p0]) (a[i := p1 - p0]) = Inr (xu', a')"
      using "1.prems" by (subst (asm) axis_loop.simps) (auto simp: bind_fault_def split: sum.splits)
    from "1.IH"[OF True r] show ?thesis by simp
  next
    case False
    then show ?thesis using "1.prems" by (subst (asm) axis_loop.simps) simp
  qed
qed

lemma replicate_update_same: "(replicate n c)[i := c] = replicate n c"
  by (induction n arbitrary: i) (auto split: nat.splits)

lemma axis_loop_coincide:
  assumes "2 * n \<le> length params" "\<forall>k<n. params ! (n + k) = params ! k" "a = replicate n 0"
  shows "\<exists>xu'. axis_loop params n i xu a = Inr (xu', replicate n 0)"
  using assms
proof (induction params n i xu a rule: axis_loop.induct)
  case (1 params n i xu a)
  show ?case
  proof (cases "i < n")
    case True
    have g0: "vec_get params i = Inr (params ! i)"
      using True "1.prems"(1) by (simp add: vec_get_def)
    have g1: "vec_get params (n + i) = Inr (params ! i)"
      using True "1.prems"(1,2) by (simp add: vec_get_def)
    have a: "a[i := params ! i - params ! i] = replicate n 0"
      using "1.prems"(3) by (simp add: replicate_update_same)
    have "axis_loop params n i xu a =
        axis_loop params n (i + 1) (xu[i := xu ! i - params ! i]) (a[i := params ! i - params ! i])"
      using True by (subst axis_loop.simps) (simp add: bind_fault_def g0 g1)
    moreover have "\<exists>xu'. axis_loop params n (i + 1) (xu[i := xu ! i - params ! i])
        (a[i := params ! i - params ! i]) = Inr (xu', replicate n 0)"
      using "1.IH"[OF True "1.prems"(1,2) a] .
    ultimately show ?thesis by simp
  next
    case False
    then show ?thesis using "1.prems"(3) by (subst axis_loop.simps) simp
  qed
qed

lemma Norml2_zero: "Norml2 (replicate n 0) = 0"
  by (simp add: Norml2_def sum_list_replicate)

lemma voltaic_pile_coincide:
  assumes "2 * length x \<le> length vp_params"
    "\<forall>i<length x. vp_params ! (length x + i) = vp_params ! i"
  shows "voltaic_pile vp_params x t = Inr (replicate (length x) 0)"
proof -
  obtain xu' where "axis_loop vp_params (length x) 0 x (replicate (length x) 0)
      = Inr (xu', replicate (length x) 0)"
    using axis_loop_coincide[OF assms refl] by blast
  then show ?thesis
    by (simp add: voltaic_pile_def bind_fault_def Norml2_zero)
qed

lemma current_ring_coincide:
  assumes "2 * length x \<le> length cr_params"
    "\<forall>i<length x. cr_params ! (length x + i) = cr_params ! i"
    "debug \<longrightarrow> length x = 3"
  shows "current_ring debug cr_params x t = Inr (replicate (length x) 0)"
proof -
  obtain xu' where "axis_loop cr_params (length x) 0 x (replicate (length x) 0)
      = Inr (xu', replicate (length x) 0)"
    using axis_loop_coincide[OF assms(1,2) refl] by blast
  moreover have "MFEM_ASSERT debug (length x = 3) = Inr ()"
    using assms(3) by (simp add: MFEM_ASSERT_def)
  ultimately show ?thesis
    by (simp add: current_ring_def bind_fault_def Norml2_zero)
qed

lemma length_Add: "length (Add v c w) = min (length v) (length w)"
  by (simp add: Add_def)

lemma length_scale: "length (scale c v) = length v"
  by (simp add: scale_def)

lemma voltaic_pile_length:
  assumes "voltaic_pile vp_params x t = Inr p"
  shows "length p = length x"
proof -
  obtain xu a where l: "axis_loop vp_params (length x) 0 x (replicate (length x) 0) = Inr (xu, a)"
    using assms by (auto simp: voltaic_pile_def bind_fault_def Let_def split: sum.splits)
  from axis_loop_length[OF l] have la: "length a = length x" by simp
  show ?thesis
    using assms la
    by (auto simp: voltaic_pile_def bind_fault_def Let_def l length_Add length_scale
        split: sum.splits if_splits)
qed

lemma ring_direction_length:
  "ring_direction a xu h = Inr ju \<Longrightarrow> length ju = 3 \<and> length a = 3"
  by (auto simp: ring_direction_def split: if_splits)

lemma current_ring_length:
  assumes "current_ring debug cr_params x t = Inr j"
  shows "length j = length x"
proof -
  obtain xu a where l: "axis_loop cr_params (length x) 0 x (replicate (length x) 0) = Inr (xu, a)"
    using assms by (auto simp: current_ring_def bind_fault_def Let_def split: sum.splits)
  from axis_loop_length[OF l] have la: "length a = length x" by simp
  show ?thesis
    using assms la
    by (auto simp: current_ring_def bind_fault_def Let_def l length_Add length_scale
        dest!: ring_direction_length split: sum.splits if_splits)
qed

lemma add_assign_same_length:
  "length v = length w \<Longrightarrow> add_assign v w = Inr (map2 (+) v w)"
  by (simp add: add_assign_def)

lemma current_src_both:
  assumes "vp_params \<noteq> []" "cr_params \<noteq> []"
    "int (length vp_params) * int (length cr_params) \<le> 2147483647"
  shows "current_src debug vp_params cr_params x t j =
     bind_fault (voltaic_pile vp_params x t) (\<lambda>p.
     bind_fault (current_ring debug cr_params x t) (\<lambda>c. Inr (map2 (+) p c)))"
proof -
  have nz: "int (length vp_params) * int (length cr_params) \<noteq> 0" using assms(1,2) by simp
  have "0 \<le> int (length vp_params) * int (length cr_params)" by simp
  then have "in_int (int (length vp_params) * int (length cr_params))"
    using assms(3) by (rule in_intI)
  then have m: "int_mul (int (length vp_params)) (int (length cr_params))
      = Inr (int (length vp_params) * int (length cr_params))"
    by (simp add: int_mul_def)
  have s: "current_src debug vp_params cr_params x t j =
     bind_fault (voltaic_pile vp_params x t) (\<lambda>p.
     bind_fault (current_ring debug cr_params x t) (\<lambda>c. add_assign p c))"
    unfolding current_src_def m using nz by (simp add: bind_fault_def)
  show ?thesis
  proof (cases "voltaic_pile vp_params x t")
    case (Inl e)
    then show ?thesis by (simp add: s bind_fault_def)
  next
    case p: (Inr p)
    show ?thesis
    proof (cases "current_ring debug cr_params x t")
      case (Inl e)
      then show ?thesis by (simp add: s p bind_fault_def)
    next
      case c: (Inr c)
      have "length p = length c"
        using voltaic_pile_length[OF p] current_ring_length[OF c] by simp
      then show ?thesis by (simp add: s p c bind_fault_def add_assign_same_length)
    qed
  qed
qed

lemma current_src_one:
  assumes "vp_params = [] \<or> cr_params = []"
  shows "current_src debug vp_params cr_params x t j =
     (if vp_params \<noteq> [] then voltaic_pile vp_params x t
      else if cr_params \<noteq> [] then current_ring debug cr_params x t
      else Inr j)"
proof -
  have m: "int_mul (int (length vp_params)) (int (length cr_params)) = Inr 0"
    using assms by (auto simp: int_mul_def in_int_iff)
  show ?thesis
    unfolding current_src_def m using assms
    by (auto simp: bind_fault_def split: sum.splits)
qed

text \<open>
  Claim C9, amended.  When the product of the sizes of \<^verbatim>\<open>vp_params_\<close> and \<^verbatim>\<open>cr_params_\<close>
  is an \<^verbatim>\<open>int\<close>, \<^verbatim>\<open>current_src\<close> yields the sum of the voltaic-pile and the current-ring
  contributions if both parameter vectors are non-empty, the one configured contribution
  if exactly one is non-empty, and the output vector \<open>j\<close> as it was passed, neither
  resized nor zeroed, if both are empty.  A fault of a contribution is the fault of
  \<^verbatim>\<open>current_src\<close>.
\<close>

theorem current_src_cases:
  assumes "int (length vp_params) * int (length cr_params) \<le> 2147483647"
  shows "current_src debug vp_params cr_params x t j =
     (if vp_params \<noteq> [] \<and> cr_params \<noteq> [] then
        bind_fault (voltaic_pile vp_params x t) (\<lambda>p.
        bind_fault (current_ring debug cr_params x t) (\<lambda>c. Inr (map2 (+) p c)))
      else if vp_params \<noteq> [] then voltaic_pile vp_params x t
      else if cr_params \<noteq> [] then current_ring debug cr_params x t
      else Inr j)"
proof (cases "vp_params \<noteq> [] \<and> cr_params \<noteq> []")
  case True
  then show ?thesis using current_src_both[OF _ _ assms] by simp
next
  case False
  then have e: "vp_params = [] \<or> cr_params = []" by simp
  show ?thesis unfolding current_src_one[OF e] using e by auto
qed

lemma voltaic_pile_example:
  "voltaic_pile [0, 0, 0, 0, 0, 1, 1, 2, 1 / 4] [1, 0, 1 / 2] 1 = Inr [0, 0, 2]"
  by (simp add: voltaic_pile_def axis_loop.simps bind_fault_def vec_get_def Norml2_def
      inner_def Add_def scale_def Let_def)

lemma current_ring_example:
  "current_ring False [0, 0, 0, 0, 0, 1, 1, 2, 3, 1 / 4] [1, 0, 1 / 2] 1 = Inr [0, 3, 0]"
  by (simp add: current_ring_def MFEM_ASSERT_def axis_loop.simps bind_fault_def vec_get_def
      Norml2_def inner_def Add_def scale_def Let_def ring_direction_def ddiv_def)

theorem current_src_cases_witness:
  "current_src False [0, 0, 0, 0, 0, 1, 1, 2, 1 / 4] [0, 0, 0, 0, 0, 1, 1, 2, 3, 1 / 4]
      [1, 0, 1 / 2] 1 [] = Inr [0, 3, 2]
   \<and> current_src False [0, 0, 0, 0, 0, 1, 1, 2, 1 / 4] [] [1, 0, 1 / 2] 1 [] = Inr [0, 0, 2]
   \<and> current_src False [] [0, 0, 0, 0, 0, 1, 1, 2, 3, 1 / 4] [1, 0, 1 / 2] 1 [] = Inr [0, 3, 0]
   \<and> current_src False [] [] [1, 0, 1 / 2] 1 [7, 7] = Inr [7, 7]"
  using current_src_cases[of "[0, 0, 0, 0, 0, 1, 1, 2, 1 / 4]" "[0, 0, 0, 0, 0, 1, 1, 2, 3, 1 / 4]"
      False "[1, 0, 1 / 2]" 1 "[]"]
    current_src_cases[of "[0, 0, 0, 0, 0, 1, 1, 2, 1 / 4]" "[]" False "[1, 0, 1 / 2]" 1 "[]"]
    current_src_cases[of "[]" "[0, 0, 0, 0, 0, 1, 1, 2, 3, 1 / 4]" False "[1, 0, 1 / 2]" 1 "[]"]
    current_src_cases[of "[]" "[]" False "[1, 0, 1 / 2]" 1 "[7, 7]"]
    voltaic_pile_example current_ring_example
  by (simp add: bind_fault_def)

text \<open>
  Without the bound the claim fails: for two parameter vectors of 65536 entries each the
  product \<^verbatim>\<open>vp_params_.Size()*cr_params_.Size()\<close> is \<open>2^32\<close>, which no \<^verbatim>\<open>int\<close> holds, although
  both contributions are defined.
\<close>

lemma voltaic_pile_long_example:
  "voltaic_pile ([0, 0, 0, 0, 0, 1, 1, 2, 1 / 4] @ replicate 65527 0) [1, 0, 1 / 2] 1
     = Inr [0, 0, 2]"
  by (simp add: voltaic_pile_def axis_loop.simps bind_fault_def vec_get_def Norml2_def
      inner_def Add_def scale_def Let_def)

lemma current_ring_long_example:
  "current_ring False ([0, 0, 0, 0, 0, 1, 1, 2, 3, 1 / 4] @ replicate 65526 0) [1, 0, 1 / 2] 1
     = Inr [0, 3, 0]"
  by (simp add: current_ring_def MFEM_ASSERT_def axis_loop.simps bind_fault_def vec_get_def
      Norml2_def inner_def Add_def scale_def Let_def ring_direction_def ddiv_def)

theorem current_src_cases_counterexample:
  "current_src False ([0, 0, 0, 0, 0, 1, 1, 2, 1 / 4] @ replicate 65527 0)
      ([0, 0, 0, 0, 0, 1, 1, 2, 3, 1 / 4] @ replicate 65526 0) [1, 0, 1 / 2] 1 []
     = Inl SignedOverflow
   \<and> voltaic_pile ([0, 0, 0, 0, 0, 1, 1, 2, 1 / 4] @ replicate 65527 0) [1, 0, 1 / 2] 1
     = Inr [0, 0, 2]
   \<and> current_ring False ([0, 0, 0, 0, 0, 1, 1, 2, 3, 1 / 4] @ replicate 65526 0) [1, 0, 1 / 2] 1
     = Inr [0, 3, 0]"
proof -
  have "current_src False ([0, 0, 0, 0, 0, 1, 1, 2, 1 / 4] @ replicate 65527 0)
      ([0, 0, 0, 0, 0, 1, 1, 2, 3, 1 / 4] @ replicate 65526 0) [1, 0, 1 / 2] 1 []
     = Inl SignedOverflow"
    by (simp add: current_src_def int_mul_def in_int_iff bind_fault_def)
  then show ?thesis
    using voltaic_pile_long_example current_ring_long_example by simp
qed

text \<open>
  Claim C10, amended.  If the two configured axis end points coincide, \<^verbatim>\<open>voltaic_pile\<close>
  returns the zero vector of length \<open>len(x)\<close> for every point \<open>x\<close> and time \<open>t\<close>, and so does
  \<^verbatim>\<open>current_ring\<close> for every point that passes its assertion \<^verbatim>\<open>x.Size() == 3\<close> (every
  point, where the assertion is compiled out): both return right after zeroing the
  output, before any division by the axis length.
\<close>

theorem zero_length_axis:
  assumes "2 * length x \<le> length vp_params"
    "\<forall>i<length x. vp_params ! (length x + i) = vp_params ! i"
    "2 * length x \<le> length cr_params"
    "\<forall>i<length x. cr_params ! (length x + i) = cr_params ! i"
    "debug \<longrightarrow> length x = 3"
  shows "voltaic_pile vp_params x t = Inr (replicate (length x) 0)
    \<and> current_ring debug cr_params x t = Inr (replicate (length x) 0)"
  using voltaic_pile_coincide[OF assms(1,2)] current_ring_coincide[OF assms(3,4,5)] by simp

theorem zero_length_axis_witness:
  "voltaic_pile [1, 1, 1, 1, 1, 1, 5, 6, 7] [1, 2, 3] (1 / 3) = Inr [0, 0, 0]
   \<and> current_ring True [2, 0, 2, 2, 0, 2, 1, 2, 3, 4] [1, 2, 3] (1 / 3) = Inr [0, 0, 0]
   \<and> voltaic_pile [4, 5, 4, 5] [1, 2] 0 = Inr [0, 0]
   \<and> current_ring False [4, 5, 4, 5] [1, 2] 0 = Inr [0, 0]"
proof -
  have a: "\<forall>i<length [1, 2, 3 :: real]. [1, 1, 1, 1, 1, 1, 5, 6, 7 :: real] ! (length [1, 2, 3 :: real] + i)
      = [1, 1, 1, 1, 1, 1, 5, 6, 7] ! i"
    by (auto simp: less_Suc_eq numeral_3_eq_3)
  have b: "\<forall>i<length [1, 2, 3 :: real]. [2, 0, 2, 2, 0, 2, 1, 2, 3, 4 :: real] ! (length [1, 2, 3 :: real] + i)
      = [2, 0, 2, 2, 0, 2, 1, 2, 3, 4] ! i"
    by (auto simp: less_Suc_eq numeral_3_eq_3)
  have c: "\<forall>i<length [1, 2 :: real]. [4, 5, 4, 5 :: real] ! (length [1, 2 :: real] + i) = [4, 5, 4, 5] ! i"
    by (auto simp: less_Suc_eq numeral_2_eq_2)
  show ?thesis
    using zero_length_axis[OF _ a _ b, of True "1 / 3"] zero_length_axis[OF _ c _ c, of False 0]
    by (simp add: numeral_3_eq_3 numeral_2_eq_2)
qed

text \<open>
  With the assertion compiled in, \<^verbatim>\<open>current_ring\<close> stops at it for a point of two
  components, whatever the axis.
\<close>

theorem zero_length_axis_counterexample:
  "current_ring True [4, 5, 4, 5] [1, 2] 0 = Inl AssertionFailed"
  by (simp add: current_ring_def MFEM_ASSERT_def bind_fault_def)

end
